theory Spec2Isabelle
  imports Main "HOL-Library.Char_ord" "HOL-Library.List_Lexorder" "HOL-Library.Product_Lexorder"
begin

section \<open>Strings\<close>

text \<open>
  A Python \<open>str\<close> is modelled as a \<open>string\<close>, each \<open>char\<close> standing for one code
  point. The character tables below (white space, line boundaries, letter case, digits)
  are Python's on the ASCII range; code points from 128 on are treated as characters
  without case that are neither white space nor line boundaries.
\<close>

definition backslash :: char where
  "backslash = CHR 0x5C"

text \<open>\<open>str.isspace\<close> on ASCII: TAB, LF, VT, FF, CR, FS, GS, RS, US and the blank.\<close>

definition is_space :: "char \<Rightarrow> bool" where
  "is_space c = (c \<in> set [CHR 0x09, CHR 0x0A, CHR 0x0B, CHR 0x0C, CHR 0x0D,
                            CHR 0x1C, CHR 0x1D, CHR 0x1E, CHR 0x1F, CHR 0x20])"

text \<open>The line boundaries of \<open>str.splitlines\<close> on ASCII: LF, VT, FF, CR, FS, GS, RS.\<close>

definition is_linebreak :: "char \<Rightarrow> bool" where
  "is_linebreak c = (c \<in> set [CHR 0x0A, CHR 0x0B, CHR 0x0C, CHR 0x0D,
                                CHR 0x1C, CHR 0x1D, CHR 0x1E])"

text \<open>The character class \<open>[0-9]\<close>.\<close>

definition is_digit :: "char \<Rightarrow> bool" where
  "is_digit c = (c \<in> set ''0123456789'')"

definition upper_char :: "char \<Rightarrow> char" where
  "upper_char c =
     (if CHR ''a'' \<le> c \<and> c \<le> CHR ''z'' then char_of (of_char c - (32::nat)) else c)"

definition lower_char :: "char \<Rightarrow> char" where
  "lower_char c =
     (if CHR ''A'' \<le> c \<and> c \<le> CHR ''Z'' then char_of (of_char c + (32::nat)) else c)"

definition upper :: "string \<Rightarrow> string" where
  "upper s = map upper_char s"

definition lower :: "string \<Rightarrow> string" where
  "lower s = map lower_char s"

text \<open>\<open>s.strip()\<close>: white space removed at both ends.\<close>

definition strip :: "string \<Rightarrow> string" where
  "strip s = rev (dropWhile is_space (rev (dropWhile is_space s)))"

text \<open>\<open>s.startswith(p)\<close> and \<open>s.endswith(p)\<close>.\<close>

definition startswith :: "string \<Rightarrow> string \<Rightarrow> bool" where
  "startswith s p = (take (length p) s = p)"

definition endswith :: "string \<Rightarrow> string \<Rightarrow> bool" where
  "endswith s p = (length p \<le> length s \<and> drop (length s - length p) s = p)"

text \<open>\<open>s.split(sep)\<close> for a separator of one character: never empty, \<open>''''\<close> gives \<open>['''']\<close>.\<close>

fun split_on :: "char \<Rightarrow> string \<Rightarrow> string list" where
  "split_on sep [] = [[]]"
| "split_on sep (c # cs) =
     (if c = sep then [] # split_on sep cs
      else (case split_on sep cs of [] \<Rightarrow> [[c]] | p # ps \<Rightarrow> (c # p) # ps))"

text \<open>\<open>sep.join(xs)\<close>.\<close>

fun join :: "string \<Rightarrow> string list \<Rightarrow> string" where
  "join sep [] = []"
| "join sep [x] = x"
| "join sep (x # y # ys) = x @ sep @ join sep (y # ys)"

text \<open>
  \<open>s.splitlines()\<close>: the lines of \<open>s\<close> without their boundaries; CR LF is one boundary,
  and a boundary at the very end opens no further line. The first argument is the line
  read so far, reversed.
\<close>

function splitlines_from :: "string \<Rightarrow> string \<Rightarrow> string list" where
  "splitlines_from cur [] = (if cur = [] then [] else [rev cur])"
| "splitlines_from cur (c # cs) =
     (if is_linebreak c
      then rev cur # splitlines_from []
             (if c = CHR 0x0D \<and> take 1 cs = [CHR 0x0A] then tl cs else cs)
      else splitlines_from (c # cur) cs)"
  by pat_completeness auto
termination
  by (relation "measure (\<lambda>(cur, s). length s)") auto

definition splitlines :: "string \<Rightarrow> string list" where
  "splitlines s = splitlines_from [] s"

section \<open>Rule model\<close>

record rule =
  rtype :: string
  "value" :: string
  options :: "string list"

definition to_line :: "rule \<Rightarrow> string" where
  "to_line r = join '','' (rtype r # value r # options r)"

section \<open>Regular expressions of the script\<close>

text \<open>
  The tail \<open>.*$\<close> of a pattern, matched against all of \<open>r\<close>: \<open>.\<close> takes any character
  but LF, and \<open>$\<close> holds at the end of the string or before a LF that ends it.
\<close>

definition dotstar_to_end :: "string \<Rightarrow> bool" where
  "dotstar_to_end r =
     (CHR 0x0A \<notin> set (if r \<noteq> [] \<and> last r = CHR 0x0A then butlast r else r))"

text \<open>\<open>REGEX_HAS_BOUNDARY.match(v)\<close> for the pattern \<open>^\^.*\$$\<close>.\<close>

definition regex_has_boundary :: "string \<Rightarrow> bool" where
  "regex_has_boundary v =
     (case v of
        [] \<Rightarrow> False
      | c # rest \<Rightarrow>
          c = CHR ''^'' \<and>
          (let body = (if rest \<noteq> [] \<and> last rest = CHR 0x0A then butlast rest else rest)
           in body \<noteq> [] \<and> last body = CHR ''$'' \<and> CHR 0x0A \<notin> set (butlast body)))"

definition normalize_regex :: "string \<Rightarrow> string" where
  "normalize_regex v0 =
     (let v = strip v0 in
      if \<not> regex_has_boundary v
      then (let v1 = (if \<not> startswith v ''^'' then ''^'' @ v else v)
            in (if \<not> endswith v1 ''$'' then v1 @ ''$'' else v1))
      else v)"

section \<open>Dynamic-label promoter\<close>

text \<open>\<open>LABEL_WITH_DIGITS.search(label)\<close>: some character of the label is in \<open>[0-9]\<close>.\<close>

definition has_digit :: "string \<Rightarrow> bool" where
  "has_digit label = list_ex is_digit label"

definition promote_dynamic_labels :: "rule \<Rightarrow> rule option" where
  "promote_dynamic_labels r =
     (if rtype r \<noteq> ''DOMAIN'' then None
      else
        let labels = split_on CHR ''.'' (value r) in
        if length labels < 3 then None
        else
          let dynamic_positions =
                map fst (filter (\<lambda>(idx, label). has_digit label \<and> 4 \<le> length label)
                                (enumerate 0 (take (length labels - 2) labels)))
          in
          if dynamic_positions = [] then None
          else
            let new_labels = foldl (\<lambda>ls idx. ls[idx := ''*'']) labels dynamic_positions
            in Some \<lparr>rtype = ''DOMAIN-WILDCARD'', value = join ''.'' new_labels,
                     options = options r\<rparr>)"

section \<open>Suffix-generalization engine\<close>

type_synonym suffix_key = "string list \<times> nat"
type_synonym suffix_map = "(suffix_key \<times> nat set) list"

text \<open>
  \<open>suffix_map[key].add(idx)\<close> on a \<open>defaultdict(set)\<close>: the dictionary keeps its keys in
  the order of their first insertion, which is the order \<open>items()\<close> yields them in.
\<close>

fun suffix_map_add :: "suffix_key \<Rightarrow> nat \<Rightarrow> suffix_map \<Rightarrow> suffix_map" where
  "suffix_map_add k idx [] = [(k, {idx})]"
| "suffix_map_add k idx ((k', s) # m) =
     (if k = k' then (k', insert idx s) # m else (k', s) # suffix_map_add k idx m)"

text \<open>The body of the loop over \<open>domain_indexes\<close>.\<close>

definition index_rule :: "rule list \<Rightarrow> suffix_map \<Rightarrow> nat \<Rightarrow> suffix_map" where
  "index_rule remaining m idx =
     (let labels = split_on CHR ''.'' (value (remaining ! idx)) in
      if length labels < 3 then m
      else
        let max_suffix_len = min (length labels - 1) 5 in
        foldl (\<lambda>m suffix_len.
                 let suffix = drop (length labels - suffix_len) labels;
                     prefix_count = length labels - suffix_len
                 in if prefix_count < 1 then m
                    else suffix_map_add (suffix, prefix_count) idx m)
              m [2..<max_suffix_len + 1])"

definition candidate_key :: "suffix_key \<times> nat set \<Rightarrow> int \<times> int \<times> int" where
  "candidate_key item =
     (case item of ((suffix, prefix_count), indexes) \<Rightarrow>
        (- int (length suffix), int prefix_count, - int (card indexes)))"

text \<open>\<open>re.escape\<close> (Python 3.7 and later): a backslash before each special character.\<close>

definition re_special :: "char \<Rightarrow> bool" where
  "re_special c =
     (c \<in> set (''()[]{}?*+-|^$.&~# '' @
                [backslash, CHR 0x09, CHR 0x0A, CHR 0x0D, CHR 0x0B, CHR 0x0C]))"

definition re_escape :: "string \<Rightarrow> string" where
  "re_escape s = concat (map (\<lambda>c. if re_special c then [backslash, c] else [c]) s)"

text \<open>
  The state of the loop over the candidates. \<open>generalized\<close> is a set in the script; the
  list holds its elements in the order they were added. No rule is added twice, since
  a rule is added to \<open>existing_rules\<close> with it and a rule found there is skipped. The
  script sorts the set by type order and value; the model sorts the list, stably.
\<close>

record engine_state =
  removed :: "nat set"
  generalized :: "rule list"
  existing_rules :: "rule set"

text \<open>The rule that one candidate stands for.\<close>

definition new_rule :: "string list \<Rightarrow> nat \<Rightarrow> string list \<Rightarrow> rule" where
  "new_rule suffix prefix_count opts =
     (let suffix_str = join ''.'' suffix in
      if prefix_count = 1
      then \<lparr>rtype = ''DOMAIN-WILDCARD'', value = ''*.'' @ suffix_str, options = opts\<rparr>
      else
        let prefix_pattern = join (backslash # ''.'') (replicate prefix_count ''[^.]+'');
            escaped_suffix = re_escape suffix_str;
            regex = ''^'' @ prefix_pattern @ (backslash # ''.'') @ escaped_suffix @ ''$''
        in \<lparr>rtype = ''DOMAIN-REGEX'', value = regex, options = opts\<rparr>)"

text \<open>
  One iteration of the loop over the sorted candidates, up to its last \<open>continue\<close>:
  \<open>None\<close> when the iteration is skipped, otherwise the rule it emits and the active
  indexes it consumes. \<open>options_set.pop()\<close> is reached with a set of one element only,
  and yields that element.
\<close>

definition emission ::
  "rule list \<Rightarrow> engine_state \<Rightarrow> suffix_key \<times> nat set \<Rightarrow> (rule \<times> nat set) option" where
  "emission remaining st item =
     (case item of ((suffix, prefix_count), indexes) \<Rightarrow>
        let active_indexes = {idx \<in> indexes. idx \<notin> removed st} in
        if card active_indexes < 2 then None
        else
          let options_set = (\<lambda>idx. options (remaining ! idx)) ` active_indexes in
          if card options_set \<noteq> 1 then None
          else
            let opts = the_elem options_set;
                suffix_str = join ''.'' suffix
            in
            if length suffix < 2 \<or> suffix_str \<in> set [''com'', ''net'', ''org'', ''cn'']
            then None
            else
              let r = new_rule suffix prefix_count opts in
              if r \<in> existing_rules st then None else Some (r, active_indexes))"

definition engine_step ::
  "rule list \<Rightarrow> engine_state \<Rightarrow> suffix_key \<times> nat set \<Rightarrow> engine_state" where
  "engine_step remaining st item =
     (case emission remaining st item of
        None \<Rightarrow> st
      | Some (r, active_indexes) \<Rightarrow>
          st\<lparr>existing_rules := insert r (existing_rules st),
             generalized := generalized st @ [r],
             removed := removed st \<union> active_indexes\<rparr>)"

definition TYPE_ORDER :: "string \<rightharpoonup> nat" where
  "TYPE_ORDER = map_of
     [(''DOMAIN'', 0), (''DOMAIN-SUFFIX'', 1), (''DOMAIN-KEYWORD'', 2),
      (''DOMAIN-WILDCARD'', 3), (''DOMAIN-REGEX'', 4), (''IP-CIDR'', 5), (''IP-CIDR6'', 6)]"

definition type_order :: "string \<Rightarrow> nat" where
  "type_order t = (case TYPE_ORDER t of None \<Rightarrow> 99 | Some n \<Rightarrow> n)"

text \<open>The first loop: promoted rules in input order, and the indexes they came from.\<close>

definition promote_all :: "rule list \<Rightarrow> rule list \<times> nat set" where
  "promote_all rules =
     foldl (\<lambda>(promoted, consumed_indexes) (idx, r).
              case promote_dynamic_labels r of
                None \<Rightarrow> (promoted, consumed_indexes)
              | Some p \<Rightarrow> (promoted @ [p], insert idx consumed_indexes))
           ([], {}) (enumerate 0 rules)"

definition remaining_rules :: "rule list \<Rightarrow> rule list" where
  "remaining_rules rules =
     map snd (filter (\<lambda>(idx, r). idx \<notin> snd (promote_all rules)) (enumerate 0 rules))"

definition build_suffix_map :: "rule list \<Rightarrow> suffix_map" where
  "build_suffix_map remaining =
     (let domain_indexes =
            map fst (filter (\<lambda>(idx, r). rtype r = ''DOMAIN'') (enumerate 0 remaining))
      in foldl (index_rule remaining) [] domain_indexes)"

definition candidates :: "rule list \<Rightarrow> (suffix_key \<times> nat set) list" where
  "candidates remaining = sort_key candidate_key (build_suffix_map remaining)"

definition initial_state :: "rule list \<Rightarrow> engine_state" where
  "initial_state remaining =
     \<lparr>removed = {}, generalized = [], existing_rules = set remaining\<rparr>"

definition run_engine :: "rule list \<Rightarrow> engine_state" where
  "run_engine remaining =
     foldl (engine_step remaining) (initial_state remaining) (candidates remaining)"

text \<open>The final pass: first occurrences only, in order.\<close>

fun unique_rules :: "rule list \<Rightarrow> rule set \<Rightarrow> rule list" where
  "unique_rules [] seen = []"
| "unique_rules (r # rs) seen =
     (if r \<in> seen then unique_rules rs seen else r # unique_rules rs (insert r seen))"

definition simplify_rules :: "rule list \<Rightarrow> rule list" where
  "simplify_rules rules =
     (let promoted = fst (promote_all rules);
          remaining = remaining_rules rules;
          st = run_engine remaining;
          simplified =
            map snd (filter (\<lambda>(idx, r). idx \<notin> removed st) (enumerate 0 remaining))
            @ sort_key (\<lambda>r. (type_order (rtype r), value r)) (generalized st)
            @ promoted
      in unique_rules simplified {})"

text \<open>The test the promoter applies to a label: a digit, and length at least 4.\<close>

definition dynamic_label :: "string \<Rightarrow> bool" where
  "dynamic_label label = (has_digit label \<and> 4 \<le> length label)"

section \<open>Emissions of the suffix engine\<close>

text \<open>
  The emissions of a run of the loop over the candidates, in order: for each iteration
  that is not skipped, the key of the candidate, the state the iteration started in,
  the rule it emitted and the active indexes it consumed.
\<close>

record emitted =
  em_key :: suffix_key
  em_before :: engine_state
  em_rule :: rule
  em_consumed :: "nat set"

fun engine_trace ::
  "rule list \<Rightarrow> engine_state \<Rightarrow> (suffix_key \<times> nat set) list \<Rightarrow> emitted list" where
  "engine_trace remaining st [] = []"
| "engine_trace remaining st (item # items) =
     (case emission remaining st item of
        None \<Rightarrow> engine_trace remaining st items
      | Some (r, active_indexes) \<Rightarrow>
          \<lparr>em_key = fst item, em_before = st, em_rule = r, em_consumed = active_indexes\<rparr>
          # engine_trace remaining (engine_step remaining st item) items)"

definition emissions :: "rule list \<Rightarrow> emitted list" where
  "emissions rules =
     (let remaining = remaining_rules rules
      in engine_trace remaining (initial_state remaining) (candidates remaining))"

text \<open>
  The two ways a value can match a generalized rule. \<open>matches_wildcard\<close>: one label
  without a dot, a dot, and the suffix string. \<open>matches_label_regex\<close>: exactly \<open>n\<close>
  non-empty labels without a dot, each followed by a dot, and the suffix string.
\<close>

definition matches_wildcard :: "string \<Rightarrow> string \<Rightarrow> bool" where
  "matches_wildcard suffix_str v =
     (\<exists>label. CHR ''.'' \<notin> set label \<and> v = label @ ''.'' @ suffix_str)"

definition matches_label_regex :: "nat \<Rightarrow> string \<Rightarrow> string \<Rightarrow> bool" where
  "matches_label_regex n suffix_str v =
     (\<exists>labels. length labels = n \<and> (\<forall>l \<in> set labels. l \<noteq> [] \<and> CHR ''.'' \<notin> set l) \<and>
        v = join ''.'' labels @ ''.'' @ suffix_str)"

text \<open>
  What the engine relies on: an index recorded under a key is the index of a \<open>DOMAIN\<close>
  rule whose labels are \<open>prefix_count\<close> labels followed by the suffix of the key.
\<close>

definition supports :: "rule list \<Rightarrow> suffix_key \<Rightarrow> nat \<Rightarrow> bool" where
  "supports remaining key idx =
     (case key of (suffix, prefix_count) \<Rightarrow>
        idx < length remaining \<and> rtype (remaining ! idx) = ''DOMAIN'' \<and>
        1 \<le> prefix_count \<and> 2 \<le> length suffix \<and>
        length (split_on CHR ''.'' (value (remaining ! idx))) = prefix_count + length suffix \<and>
        drop prefix_count (split_on CHR ''.'' (value (remaining ! idx))) = suffix)"

definition map_supported :: "rule list \<Rightarrow> suffix_map \<Rightarrow> bool" where
  "map_supported remaining m =
     (\<forall>item \<in> set m. \<forall>idx \<in> snd item. supports remaining (fst item) idx)"

section \<open>Format adapters\<close>

text \<open>
  \<open>INLINE_COMMENT_RE\<close>, the pattern \<open>\s+(#|//|;).*$\<close>, matched at the start of \<open>s\<close>: a
  run of white space taken to its end (a shorter run is followed by white space, which
  starts no marker), one of the three markers, and \<open>.*$\<close> on what is left.
\<close>

definition comment_here :: "string \<Rightarrow> bool" where
  "comment_here s =
     (case s of
        [] \<Rightarrow> False
      | c # cs \<Rightarrow>
          is_space c \<and>
          (case dropWhile is_space cs of
             [] \<Rightarrow> False
           | m # r \<Rightarrow>
               if m = CHR ''#'' \<or> m = CHR '';'' then dotstar_to_end r
               else if m = CHR ''/'' then
                 (case r of [] \<Rightarrow> False | m' # r' \<Rightarrow> m' = CHR ''/'' \<and> dotstar_to_end r')
               else False))"

text \<open>
  \<open>INLINE_COMMENT_RE.sub('''', s)\<close>: the leftmost match is cut out. It runs to the end of
  the string, or to the LF that ends it, so that there is no second match.
\<close>

fun sub_inline_comment :: "string \<Rightarrow> string" where
  "sub_inline_comment [] = []"
| "sub_inline_comment (c # cs) =
     (if comment_here (c # cs) then (if last (c # cs) = CHR 0x0A then [CHR 0x0A] else [])
      else c # sub_inline_comment cs)"

definition strip_inline_comment :: "string \<Rightarrow> string" where
  "strip_inline_comment line = strip (sub_inline_comment line)"

definition TYPE_MAP_QUANX :: "string \<rightharpoonup> string" where
  "TYPE_MAP_QUANX = map_of
     [(''HOST'', ''DOMAIN''), (''HOST-SUFFIX'', ''DOMAIN-SUFFIX''),
      (''HOST-KEYWORD'', ''DOMAIN-KEYWORD''), (''HOST-WILDCARD'', ''DOMAIN-WILDCARD''),
      (''HOST-REGEX'', ''DOMAIN-REGEX''), (''IP-CIDR'', ''IP-CIDR''),
      (''IP6-CIDR'', ''IP-CIDR6'')]"

definition DOMAIN_LIKE_TYPES :: "string set" where
  "DOMAIN_LIKE_TYPES =
     set [''DOMAIN'', ''DOMAIN-SUFFIX'', ''DOMAIN-KEYWORD'', ''DOMAIN-WILDCARD'']"

text \<open>The test both adapters apply to a stripped line before anything else.\<close>

definition blank_or_comment :: "string \<Rightarrow> bool" where
  "blank_or_comment line =
     (line = [] \<or> startswith line ''#'' \<or> startswith line ''//'' \<or> startswith line '';'')"

text \<open>\<open>[part.strip() for part in line.split(",")]\<close>.\<close>

definition line_parts :: "string \<Rightarrow> string list" where
  "line_parts line = map strip (split_on CHR '','' line)"

text \<open>
  What one line of the source text gives: nothing, a warning on the error stream, or a
  rule.
\<close>

datatype line_result = Skip | Warn string | Emit rule

definition parse_quanx_line :: "string \<Rightarrow> line_result" where
  "parse_quanx_line raw_line =
     (let line = strip raw_line in
      if blank_or_comment line then Skip
      else
        let line = strip_inline_comment line in
        if line = [] then Skip
        else
          let parts = line_parts line in
          if length parts < 2 then Skip
          else
            let kind_raw = upper (parts ! 0) in
            case TYPE_MAP_QUANX kind_raw of
              None \<Rightarrow> Warn (''[warn] Unsupported Quantumult X rule type: '' @ kind_raw)
            | Some kind \<Rightarrow>
                let v = strip (parts ! 1) in
                if v = [] then Skip
                else
                  let remainder = filter (\<lambda>item. item \<noteq> []) (drop 2 parts);
                      opts = (if remainder \<noteq> []
                              then filter (\<lambda>item. item \<noteq> []) (map strip (tl remainder))
                              else []);
                      v = (if kind \<in> DOMAIN_LIKE_TYPES then lower v else v);
                      v = (if kind = ''DOMAIN-REGEX'' then normalize_regex v else v)
                  in Emit \<lparr>rtype = kind, value = v, options = opts\<rparr>)"

definition parse_surge_line :: "string \<Rightarrow> line_result" where
  "parse_surge_line raw_line =
     (let line = strip raw_line in
      if blank_or_comment line then Skip
      else
        let line = strip_inline_comment line in
        if line = [] then Skip
        else
          let parts = line_parts line in
          if length parts < 2 then Skip
          else
            let kind = upper (parts ! 0);
                v = strip (parts ! 1)
            in
            if v = [] then Skip
            else
              let v = (if kind \<in> DOMAIN_LIKE_TYPES then lower v else v);
                  opts = (if 2 < length parts
                          then filter (\<lambda>opt. opt \<noteq> []) (map strip (drop 2 parts))
                          else []);
                  v = (if kind = ''DOMAIN-REGEX'' then normalize_regex v else v)
              in Emit \<lparr>rtype = kind, value = v, options = opts\<rparr>)"

text \<open>The rules a list of line results yields, and the warnings it prints.\<close>

fun emitted_rules :: "line_result list \<Rightarrow> rule list" where
  "emitted_rules [] = []"
| "emitted_rules (Emit r # ls) = r # emitted_rules ls"
| "emitted_rules (_ # ls) = emitted_rules ls"

fun warnings :: "line_result list \<Rightarrow> string list" where
  "warnings [] = []"
| "warnings (Warn msg # ls) = msg # warnings ls"
| "warnings (_ # ls) = warnings ls"

definition parse_quanx :: "string \<Rightarrow> rule list" where
  "parse_quanx content = emitted_rules (map parse_quanx_line (splitlines content))"

definition parse_quanx_warnings :: "string \<Rightarrow> string list" where
  "parse_quanx_warnings content = warnings (map parse_quanx_line (splitlines content))"

definition parse_surge :: "string \<Rightarrow> rule list" where
  "parse_surge content = emitted_rules (map parse_surge_line (splitlines content))"


section \<open>The run\<close>

record source =
  src_kind :: string
  src_url :: string
  src_description :: string

definition SOURCES :: "source list" where
  "SOURCES =
     [\<lparr>src_kind = ''quanx'',
       src_url = ''https://raw.githubusercontent.com/enriquephl/QuantumultX_config/main/filters/NoMalwares.conf'',
       src_description = ''NoMalwares (Quantumult X)''\<rparr>,
      \<lparr>src_kind = ''quanx'',
       src_url = ''https://raw.githubusercontent.com/Elysian-Realme/FuGfConfig/main/ConfigFile/QuantumultX/FuckRogueSoftwareRules.conf'',
       src_description = ''FuckRogueSoftwareRules (Quantumult X)''\<rparr>,
      \<lparr>src_kind = ''surge'',
       src_url = ''https://raw.githubusercontent.com/SukkaLab/ruleset.skk.moe/master/List/non_ip/reject-no-drop.conf'',
       src_description = ''Reject No Drop (Surge)''\<rparr>]"

text \<open>
  What the network answers to the request for one URL: the decoded body, an exception
  of class \<open>URLError\<close>, or an exception of any other class, each exception with its
  text.
\<close>

datatype fetch_outcome = Fetched string | URLError string | OtherError string

text \<open>
  How a run ends before its time: by \<open>SystemExit\<close> with a message, or by an exception
  that nothing catches. The interpreter turns both into exit status 1.
\<close>

datatype failure = SystemExit string | Uncaught string

definition exit_status :: "failure + unit \<Rightarrow> nat" where
  "exit_status res = (case res of Inl f \<Rightarrow> 1 | Inr u \<Rightarrow> 0)"

text \<open>
  What a run changes: the requests sent, in order; the lines printed on the error
  stream; whether the directory of the target exists; and the text of the target file.
\<close>

record world =
  requests :: "string list"
  stderr :: "string list"
  target_dir :: bool
  target_file :: "string option"

definition fetch_text ::
  "(string \<Rightarrow> fetch_outcome) \<Rightarrow> string \<Rightarrow> world \<Rightarrow> (failure + string) \<times> world" where
  "fetch_text net u w =
     (let w' = w\<lparr>requests := requests w @ [u]\<rparr> in
      case net u of
        Fetched text \<Rightarrow> (Inr text, w')
      | URLError exc \<Rightarrow> (Inl (SystemExit (''Failed to download '' @ u @ '': '' @ exc)), w')
      | OtherError exc \<Rightarrow> (Inl (Uncaught exc), w'))"

text \<open>The body of the inner loop of \<open>main\<close>.\<close>

fun add_unseen :: "rule list \<times> rule set \<Rightarrow> rule \<Rightarrow> rule list \<times> rule set" where
  "add_unseen (collected, seen) r =
     (if r \<notin> seen then (collected @ [r], insert r seen) else (collected, seen))"

text \<open>The loop over the sources.\<close>

fun collect ::
  "(string \<Rightarrow> fetch_outcome) \<Rightarrow> source list \<Rightarrow> rule list \<times> rule set \<Rightarrow> world \<Rightarrow>
   (failure + rule list \<times> rule set) \<times> world" where
  "collect net [] acc w = (Inr acc, w)"
| "collect net (s # sources) acc w =
     (case fetch_text net (src_url s) w of
        (Inl f, w') \<Rightarrow> (Inl f, w')
      | (Inr text, w') \<Rightarrow>
          if src_kind s = ''quanx''
          then collect net sources (foldl add_unseen acc (parse_quanx text))
                 (w'\<lparr>stderr := stderr w' @ parse_quanx_warnings text\<rparr>)
          else collect net sources (foldl add_unseen acc (parse_surge text)) w')"

text \<open>\<open>item.partition(",")\<close>, without the separator.\<close>

definition partition_comma :: "string \<Rightarrow> string \<times> string" where
  "partition_comma item =
     (takeWhile (\<lambda>c. c \<noteq> CHR '','') item, drop 1 (dropWhile (\<lambda>c. c \<noteq> CHR '','') item))"

definition sort_rules :: "string list \<Rightarrow> string list" where
  "sort_rules lines =
     sort_key (\<lambda>item. case partition_comma item of
                 (rule_type, remainder) \<Rightarrow> (type_order rule_type, rule_type, remainder))
       lines"

text \<open>\<open>main\<close>, with the network and the clock as arguments.\<close>

definition main ::
  "(string \<Rightarrow> fetch_outcome) \<Rightarrow> string \<Rightarrow> world \<Rightarrow> (failure + unit) \<times> world" where
  "main net now w =
     (case collect net SOURCES ([], {}) w of
        (Inl f, w') \<Rightarrow> (Inl f, w')
      | (Inr (collected, seen), w') \<Rightarrow>
          let simplified = simplify_rules collected;
              lines = sort_rules (map to_line simplified);
              header_lines =
                [''# DO NOT EDIT MANUALLY'', ''# Generated on '' @ now @ ''Z'', ''# Sources:'']
                @ map (\<lambda>s. ''# - '' @ src_description s @ '': '' @ src_url s) SOURCES
                @ ['''']
          in (Inr (),
              w'\<lparr>target_dir := True,
                 target_file :=
                   Some (join [CHR 0x0A] (header_lines @ lines) @ [CHR 0x0A])\<rparr>))"

text \<open>A message names a URL when the URL occurs in it.\<close>

definition mentions :: "string \<Rightarrow> string \<Rightarrow> bool" where
  "mentions msg u = list_ex (\<lambda>n. take (length u) (drop n msg) = u) [0..<Suc (length msg)]"

definition fetched :: "fetch_outcome \<Rightarrow> bool" where
  "fetched out = (case out of Fetched text \<Rightarrow> True | _ \<Rightarrow> False)"

section \<open>Facts about the string primitives\<close>

lemma strip_fixed:
  assumes "s \<noteq> []" "\<not> is_space (hd s)" "\<not> is_space (last s)"
  shows "strip s = s"
proof -
  from assms have a: "dropWhile is_space s = s"
    by (cases s) simp_all
  from assms have "dropWhile is_space (rev s) = rev s"
    by (cases "rev s") (simp_all add: last_rev [symmetric] hd_rev)
  with a show ?thesis by (simp add: strip_def)
qed

lemma startswith_hat: "startswith v ''^'' \<longleftrightarrow> v \<noteq> [] \<and> hd v = CHR ''^''"
  by (cases v) (simp_all add: startswith_def)

lemma endswith_dollar: "endswith v ''$'' \<longleftrightarrow> v \<noteq> [] \<and> last v = CHR ''$''"
proof (cases v rule: rev_cases)
  case Nil
  then show ?thesis by (simp add: endswith_def)
next
  case (snoc ys y)
  then show ?thesis by (simp add: endswith_def)
qed

lemma regex_has_boundary_ends:
  assumes "regex_has_boundary v" "v \<noteq> [] \<Longrightarrow> \<not> is_space (last v)"
  shows "startswith v ''^'' \<and> endswith v ''$''"
proof -
  from assms(1) obtain rest where v: "v = CHR ''^'' # rest"
    by (cases v) (auto simp: regex_has_boundary_def)
  have nolf: "rest \<noteq> [] \<Longrightarrow> last rest \<noteq> CHR 0x0A"
    using assms(2) v by (auto simp: is_space_def)
  from assms(1) v nolf have "rest \<noteq> [] \<and> last rest = CHR ''$''"
    by (auto simp: regex_has_boundary_def Let_def split: if_splits)
  with v show ?thesis
    by (simp add: startswith_hat endswith_dollar)
qed

lemma strip_last_not_space: "strip s \<noteq> [] \<Longrightarrow> \<not> is_space (last (strip s))"
proof -
  assume ne: "strip s \<noteq> []"
  let ?t = "dropWhile is_space (rev (dropWhile is_space s))"
  from ne have t: "?t \<noteq> []" by (simp add: strip_def)
  then have "\<not> is_space (hd ?t)" by (rule hd_dropWhile)
  moreover have "last (strip s) = hd ?t"
    using t by (simp add: strip_def last_rev)
  ultimately show ?thesis by simp
qed

lemma normalize_regex_anchored:
  "startswith (normalize_regex v) ''^'' \<and> endswith (normalize_regex v) ''$''"
proof (cases "regex_has_boundary (strip v)")
  case True
  then have "startswith (strip v) ''^'' \<and> endswith (strip v) ''$''"
    by (rule regex_has_boundary_ends) (rule strip_last_not_space)
  with True show ?thesis by (simp add: normalize_regex_def)
next
  case False
  then show ?thesis
    by (auto simp: normalize_regex_def Let_def startswith_hat endswith_dollar)
qed

lemma normalize_regex_fixed:
  assumes "startswith w ''^''" "endswith w ''$''"
  shows "normalize_regex w = w"
proof -
  from assms have ne: "w \<noteq> []" and h: "hd w = CHR ''^''" and l: "last w = CHR ''$''"
    by (simp_all add: startswith_hat endswith_dollar)
  have "strip w = w"
    using ne h l by (intro strip_fixed) (simp_all add: is_space_def)
  with assms show ?thesis by (simp add: normalize_regex_def Let_def)
qed

section \<open>The examples, evaluated\<close>

lemma simplify_ads_example:
  "simplify_rules
     [\<lparr>rtype = ''DOMAIN'', value = ''x.ads.example.com'', options = []\<rparr>,
      \<lparr>rtype = ''DOMAIN'', value = ''y.ads.example.com'', options = []\<rparr>]
   = [\<lparr>rtype = ''DOMAIN-WILDCARD'', value = ''*.ads.example.com'', options = []\<rparr>]"
  apply code_simp
  apply simp
  done

lemma simplify_track_example:
  "simplify_rules
     [\<lparr>rtype = ''DOMAIN'', value = ''a1.track.example.com'', options = []\<rparr>,
      \<lparr>rtype = ''DOMAIN'', value = ''b2.track.example.com'', options = []\<rparr>]
   = [\<lparr>rtype = ''DOMAIN-WILDCARD'', value = ''*.track.example.com'', options = []\<rparr>]"
  apply code_simp
  apply simp
  done

lemma promote_track_example:
  "promote_dynamic_labels
     \<lparr>rtype = ''DOMAIN'', value = ''a1.track.example.com'', options = []\<rparr> = None"
  "promote_dynamic_labels
     \<lparr>rtype = ''DOMAIN'', value = ''b2.track.example.com'', options = []\<rparr> = None"
  by code_simp+

lemma simplify_tracker_example:
  "simplify_rules
     [\<lparr>rtype = ''DOMAIN'', value = ''p.q.tracker.net'', options = []\<rparr>,
      \<lparr>rtype = ''DOMAIN'', value = ''r.s.tracker.net'', options = []\<rparr>]
   = [\<lparr>rtype = ''DOMAIN-REGEX'',
       value = ''^[^.]+'' @ [backslash] @ ''.[^.]+'' @ [backslash] @ ''.tracker''
               @ [backslash] @ ''.net$'',
       options = []\<rparr>]"
  apply code_simp
  apply simp
  done


section \<open>Facts about the promoter\<close>

lemma length_foldl_update:
  "length (foldl (\<lambda>ls idx. ls[idx := x]) ls idxs) = length ls"
  by (induction idxs arbitrary: ls) simp_all

lemma nth_foldl_update:
  "i < length ls \<Longrightarrow>
   foldl (\<lambda>ls idx. ls[idx := x]) ls idxs ! i = (if i \<in> set idxs then x else ls ! i)"
proof (induction idxs arbitrary: ls)
  case Nil
  then show ?case by simp
next
  case (Cons j js)
  then show ?case by (auto simp: nth_list_update)
qed

lemma set_flagged_positions:
  "set (map fst (filter (\<lambda>(idx, label). P label) (enumerate 0 (take k ls))))
   = {i. i < k \<and> i < length ls \<and> P (ls ! i)}"
proof -
  have "i \<in> set (map fst (filter (\<lambda>(idx, label). P label) (enumerate 0 (take k ls))))
        \<longleftrightarrow> i < k \<and> i < length ls \<and> P (ls ! i)" for i
  proof
    assume "i \<in> set (map fst (filter (\<lambda>(idx, label). P label) (enumerate 0 (take k ls))))"
    then obtain l where "(i, l) \<in> set (enumerate 0 (take k ls))" "P l"
      by auto
    then show "i < k \<and> i < length ls \<and> P (ls ! i)"
      by (auto simp: in_set_enumerate_eq)
  next
    assume a: "i < k \<and> i < length ls \<and> P (ls ! i)"
    then have "(i, ls ! i) \<in> set (enumerate 0 (take k ls))"
      by (simp add: in_set_enumerate_eq)
    with a have "(i, ls ! i) \<in> set (filter (\<lambda>(idx, label). P label) (enumerate 0 (take k ls)))"
      by simp
    then show "i \<in> set (map fst (filter (\<lambda>(idx, label). P label) (enumerate 0 (take k ls))))"
      by force
  qed
  then show ?thesis by blast
qed

lemma flagged_positions_empty:
  "map fst (filter (\<lambda>(idx, label). P label) (enumerate 0 (take k ls))) = []
   \<longleftrightarrow> \<not> list_ex P (take k ls)"
proof -
  have "map fst (filter (\<lambda>(idx, label). P label) (enumerate 0 (take k ls))) = []
        \<longleftrightarrow> set (map fst (filter (\<lambda>(idx, label). P label) (enumerate 0 (take k ls)))) = {}"
    by (simp only: set_empty)
  also have "\<dots> \<longleftrightarrow> \<not> (\<exists>i. i < k \<and> i < length ls \<and> P (ls ! i))"
    unfolding set_flagged_positions by blast
  also have "\<dots> \<longleftrightarrow> \<not> list_ex P (take k ls)"
  proof -
    have "(\<exists>i. i < k \<and> i < length ls \<and> P (ls ! i)) \<longleftrightarrow> (\<exists>l\<in>set (take k ls). P l)"
    proof
      assume "\<exists>i. i < k \<and> i < length ls \<and> P (ls ! i)"
      then obtain i where i: "i < k" "i < length ls" "P (ls ! i)" by blast
      then have "take k ls ! i \<in> set (take k ls)" by (intro nth_mem) simp
      with i show "\<exists>l\<in>set (take k ls). P l" by auto
    next
      assume "\<exists>l\<in>set (take k ls). P l"
      then obtain l where "l \<in> set (take k ls)" "P l" by blast
      then obtain i where "i < length (take k ls)" "take k ls ! i = l"
        by (auto simp: in_set_conv_nth)
      with \<open>P l\<close> show "\<exists>i. i < k \<and> i < length ls \<and> P (ls ! i)"
        by (intro exI [of _ i]) auto
    qed
    then show ?thesis by (simp add: list_ex_iff)
  qed
  finally show ?thesis .
qed

lemma foldl_update_flagged:
  "foldl (\<lambda>ls idx. ls[idx := x]) ls
     (map fst (filter (\<lambda>(idx, label). P label) (enumerate 0 (take k ls))))
   = map (\<lambda>(i, l). if i < k \<and> P l then x else l) (enumerate 0 ls)"
proof (rule nth_equalityI)
  show "length (foldl (\<lambda>ls idx. ls[idx := x]) ls
          (map fst (filter (\<lambda>(idx, label). P label) (enumerate 0 (take k ls)))))
        = length (map (\<lambda>(i, l). if i < k \<and> P l then x else l) (enumerate 0 ls))"
    by (simp add: length_foldl_update)
next
  fix i
  assume "i < length (foldl (\<lambda>ls idx. ls[idx := x]) ls
          (map fst (filter (\<lambda>(idx, label). P label) (enumerate 0 (take k ls)))))"
  then have i: "i < length ls" by (simp add: length_foldl_update)
  then show "foldl (\<lambda>ls idx. ls[idx := x]) ls
          (map fst (filter (\<lambda>(idx, label). P label) (enumerate 0 (take k ls)))) ! i
        = map (\<lambda>(i, l). if i < k \<and> P l then x else l) (enumerate 0 ls) ! i"
    unfolding nth_foldl_update [OF i] set_flagged_positions
    by (simp add: nth_enumerate_eq)
qed

section \<open>Facts about splitting and joining\<close>

lemma split_on_not_Nil [simp]: "split_on sep s \<noteq> []"
  by (induction s) (auto split: list.splits)

lemma split_on_sep_free: "l \<in> set (split_on sep s) \<Longrightarrow> sep \<notin> set l"
  by (induction s arbitrary: l) (auto split: list.splits if_splits)

lemma join_split_on: "join [sep] (split_on sep s) = s"
proof (induction s)
  case Nil
  then show ?case by simp
next
  case (Cons c cs)
  show ?case
  proof (cases "c = sep")
    case True
    then show ?thesis using Cons by (cases "split_on sep cs") simp_all
  next
    case False
    obtain p ps where ps: "split_on sep cs = p # ps"
      by (cases "split_on sep cs") simp_all
    with False Cons show ?thesis by (cases ps) simp_all
  qed
qed




lemma join_append:
  "xs \<noteq> [] \<Longrightarrow> ys \<noteq> [] \<Longrightarrow> join sep (xs @ ys) = join sep xs @ sep @ join sep ys"
proof (induction xs rule: join.induct[of _ sep])
  case (1 sep')
  then show ?case by simp
next
  case (2 sep' x)
  then show ?case by (cases ys) simp_all
next
  case (3 sep' x y zs)
  then show ?case by simp
qed

section \<open>Facts about the suffix engine\<close>

lemma suffix_map_add_supported:
  "map_supported remaining m \<Longrightarrow> supports remaining k idx \<Longrightarrow>
   map_supported remaining (suffix_map_add k idx m)"
proof (induction m)
  case Nil
  then show ?case by (simp add: map_supported_def)
next
  case (Cons a m)
  obtain k' s where a: "a = (k', s)" by (cases a)
  from Cons.prems have m: "map_supported remaining m" and s: "\<forall>i \<in> s. supports remaining k' i"
    using a by (simp_all add: map_supported_def)
  show ?case
  proof (cases "k = k'")
    case True
    with a m s Cons.prems(2) show ?thesis by (simp add: map_supported_def)
  next
    case False
    from Cons.IH [OF m Cons.prems(2)] a s False show ?thesis
      by (simp add: map_supported_def)
  qed
qed

lemma index_suffixes_supported:
  assumes "idx < length remaining" "rtype (remaining ! idx) = ''DOMAIN''"
    and "labels = split_on CHR ''.'' (value (remaining ! idx))"
    and "\<forall>n \<in> set ns. 2 \<le> n \<and> n \<le> length labels - 1"
    and "map_supported remaining m"
  shows "map_supported remaining
           (foldl (\<lambda>m suffix_len.
                 let suffix = drop (length labels - suffix_len) labels;
                     prefix_count = length labels - suffix_len
                 in if prefix_count < 1 then m
                    else suffix_map_add (suffix, prefix_count) idx m) m ns)"
  using assms(4,5)
proof (induction ns arbitrary: m)
  case Nil
  then show ?case by simp
next
  case (Cons n ns)
  show ?case
  proof (cases "length labels - n < 1")
    case True
    with Cons show ?thesis by (simp add: Let_def)
  next
    case False
    from Cons.prems have n: "2 \<le> n" "n \<le> length labels - 1" by simp_all
    with False assms(1-3)
    have "supports remaining (drop (length labels - n) labels, length labels - n) idx"
      by (simp add: supports_def)
    then have "map_supported remaining
        (suffix_map_add (drop (length labels - n) labels, length labels - n) idx m)"
      using Cons.prems(2) by (intro suffix_map_add_supported)
    with Cons.IH [of "suffix_map_add (drop (length labels - n) labels, length labels - n) idx m"]
      Cons.prems False
    show ?thesis by (simp add: Let_def)
  qed
qed

lemma index_rule_supported:
  assumes "idx < length remaining" "rtype (remaining ! idx) = ''DOMAIN''"
    and "map_supported remaining m"
  shows "map_supported remaining (index_rule remaining m idx)"
proof (cases "length (split_on CHR ''.'' (value (remaining ! idx))) < 3")
  case True
  with assms(3) show ?thesis by (simp add: index_rule_def)
next
  case False
  let ?labels = "split_on CHR ''.'' (value (remaining ! idx))"
  have "\<forall>n \<in> set [2..<min (length ?labels - 1) 5 + 1]. 2 \<le> n \<and> n \<le> length ?labels - 1"
    by auto
  from index_suffixes_supported [OF assms(1,2) refl this assms(3)] False
  show ?thesis by (simp add: index_rule_def Let_def)
qed

lemma foldl_index_rule_supported:
  "\<forall>idx \<in> set idxs. idx < length remaining \<and> rtype (remaining ! idx) = ''DOMAIN'' \<Longrightarrow>
   map_supported remaining m \<Longrightarrow>
   map_supported remaining (foldl (index_rule remaining) m idxs)"
  by (induction idxs arbitrary: m) (simp_all add: index_rule_supported)

lemma build_suffix_map_supported: "map_supported remaining (build_suffix_map remaining)"
proof -
  have "\<forall>idx \<in> set (map fst (filter (\<lambda>(idx, r). rtype r = ''DOMAIN'') (enumerate 0 remaining))).
          idx < length remaining \<and> rtype (remaining ! idx) = ''DOMAIN''"
    by (auto simp: in_set_enumerate_eq)
  moreover have "map_supported remaining []"
    by (simp add: map_supported_def)
  ultimately show ?thesis
    unfolding build_suffix_map_def Let_def by (rule foldl_index_rule_supported)
qed

lemma candidates_supported:
  "item \<in> set (candidates remaining) \<Longrightarrow> idx \<in> snd item \<Longrightarrow>
   supports remaining (fst item) idx"
  using build_suffix_map_supported [of remaining]
  by (simp add: candidates_def map_supported_def)

lemma the_elem_card_1: "card S = 1 \<Longrightarrow> x \<in> S \<Longrightarrow> the_elem S = x"
proof -
  assume "card S = 1" "x \<in> S"
  then obtain y where "S = {y}" by (auto simp: card_1_singleton_iff)
  with \<open>x \<in> S\<close> show ?thesis by simp
qed

lemma emission_SomeD:
  assumes "emission remaining st item = Some (r, act)"
  shows "act = {idx \<in> snd item. idx \<notin> removed st}"
    and "2 \<le> card act"
    and "\<exists>opts. (\<forall>idx \<in> act. options (remaining ! idx) = opts) \<and>
           r = new_rule (fst (fst item)) (snd (fst item)) opts"
    and "r \<notin> existing_rules st"
    and "join ''.'' (fst (fst item)) \<notin> set [''com'', ''net'', ''org'', ''cn'']"
proof -
  obtain suffix prefix_count indexes where item: "item = ((suffix, prefix_count), indexes)"
    by (cases item) auto
  let ?act = "{idx \<in> indexes. idx \<notin> removed st}"
  let ?os = "(\<lambda>idx. options (remaining ! idx)) ` ?act"
  from assms item have c: "\<not> card ?act < 2" "card ?os = 1"
    and r: "r = new_rule suffix prefix_count (the_elem ?os)" and a: "act = ?act"
    and e: "r \<notin> existing_rules st"
    and f: "join ''.'' suffix \<notin> set [''com'', ''net'', ''org'', ''cn'']"
    by (auto simp: emission_def Let_def split: if_splits)
  from a item show "act = {idx \<in> snd item. idx \<notin> removed st}" by simp
  from c a show "2 \<le> card act" by simp
  have "\<forall>idx \<in> act. options (remaining ! idx) = the_elem ?os"
    using c(2) a by (auto intro: the_elem_card_1 [symmetric])
  with r item
  show "\<exists>opts. (\<forall>idx \<in> act. options (remaining ! idx) = opts) \<and>
           r = new_rule (fst (fst item)) (snd (fst item)) opts"
    by auto
  from e show "r \<notin> existing_rules st" .
  from f item show "join ''.'' (fst (fst item)) \<notin> set [''com'', ''net'', ''org'', ''cn'']"
    by simp
qed

lemma engine_trace_emission:
  "e \<in> set (engine_trace remaining st items) \<Longrightarrow>
   \<exists>item \<in> set items. em_key e = fst item \<and>
      emission remaining (em_before e) item = Some (em_rule e, em_consumed e)"
proof (induction items arbitrary: st)
  case Nil
  then show ?case by simp
next
  case (Cons item items)
  show ?case
  proof (cases "emission remaining st item")
    case None
    with Cons show ?thesis by auto
  next
    case (Some p)
    obtain r act where p: "p = (r, act)" by (cases p)
    from Cons.prems Some p
    consider "e = \<lparr>em_key = fst item, em_before = st, em_rule = r, em_consumed = act\<rparr>"
      | "e \<in> set (engine_trace remaining (engine_step remaining st item) items)"
      by auto
    then show ?thesis
    proof cases
      case 1
      with Some p show ?thesis by simp
    next
      case 2
      from Cons.IH [OF this] show ?thesis by auto
    qed
  qed
qed

lemma engine_trace_generalized:
  "generalized (foldl (engine_step remaining) st items)
   = generalized st @ map em_rule (engine_trace remaining st items)"
proof (induction items arbitrary: st)
  case Nil
  then show ?case by simp
next
  case (Cons item items)
  show ?case
  proof (cases "emission remaining st item")
    case None
    with Cons show ?thesis by (simp add: engine_step_def)
  next
    case (Some p)
    obtain r act where p: "p = (r, act)" by (cases p)
    have "generalized (engine_step remaining st item) = generalized st @ [r]"
      using Some p by (simp add: engine_step_def)
    with Cons [of "engine_step remaining st item"] Some p show ?thesis by simp
  qed
qed

lemma engine_trace_removed:
  "removed (foldl (engine_step remaining) st items)
   = removed st \<union> \<Union> (em_consumed ` set (engine_trace remaining st items))"
proof (induction items arbitrary: st)
  case Nil
  then show ?case by simp
next
  case (Cons item items)
  show ?case
  proof (cases "emission remaining st item")
    case None
    with Cons show ?thesis by (simp add: engine_step_def)
  next
    case (Some p)
    obtain r act where p: "p = (r, act)" by (cases p)
    have "removed (engine_step remaining st item) = removed st \<union> act"
      using Some p by (simp add: engine_step_def)
    with Cons [of "engine_step remaining st item"] Some p show ?thesis by auto
  qed
qed


lemma supports_value:
  assumes "supports remaining (suffix, prefix_count) idx"
  defines "v \<equiv> value (remaining ! idx)"
  defines "labels \<equiv> take prefix_count (split_on CHR ''.'' v)"
  shows "length labels = prefix_count"
    and "\<forall>l \<in> set labels. CHR ''.'' \<notin> set l"
    and "v = join ''.'' labels @ ''.'' @ join ''.'' suffix"
proof -
  from assms(1) have len: "length (split_on CHR ''.'' v) = prefix_count + length suffix"
    and dr: "drop prefix_count (split_on CHR ''.'' v) = suffix"
    and pc: "1 \<le> prefix_count" and sl: "2 \<le> length suffix"
    by (simp_all add: supports_def v_def)
  from len show l: "length labels = prefix_count"
    by (simp add: labels_def)
  show "\<forall>l \<in> set labels. CHR ''.'' \<notin> set l"
    unfolding labels_def by (auto dest: in_set_takeD split_on_sep_free)
  have "split_on CHR ''.'' v = labels @ suffix"
    unfolding labels_def using dr append_take_drop_id [of prefix_count "split_on CHR ''.'' v"]
    by simp
  moreover have "labels \<noteq> []" using l pc by auto
  moreover have "suffix \<noteq> []" using sl by auto
  ultimately have "join ''.'' (split_on CHR ''.'' v) = join ''.'' labels @ ''.'' @ join ''.'' suffix"
    by (simp add: join_append)
  then show "v = join ''.'' labels @ ''.'' @ join ''.'' suffix"
    by (simp add: join_split_on)
qed

lemma matches_label_regex_hd:
  assumes "matches_label_regex n suffix_str v" "1 \<le> n"
  shows "v \<noteq> [] \<and> hd v \<noteq> CHR ''.''"
proof -
  from assms(1) obtain labels where l: "length labels = n"
    "\<forall>l \<in> set labels. l \<noteq> [] \<and> CHR ''.'' \<notin> set l"
    "v = join ''.'' labels @ ''.'' @ suffix_str"
    by (auto simp: matches_label_regex_def)
  from l(1) assms(2) obtain x xs where xs: "labels = x # xs" by (cases labels) auto
  with l(2) have x: "x \<noteq> []" "CHR ''.'' \<notin> set x" by auto
  then obtain c cs where c: "x = c # cs" by (cases x) auto
  obtain t where "join ''.'' (x # xs) = c # t"
    using c by (cases xs) simp_all
  with l(3) xs have "v \<noteq> [] \<and> hd v = c" by simp
  with x c show ?thesis by auto
qed

lemma new_rule_wildcard:
  "prefix_count = 1 \<Longrightarrow>
   new_rule suffix prefix_count opts
   = \<lparr>rtype = ''DOMAIN-WILDCARD'', value = ''*.'' @ join ''.'' suffix, options = opts\<rparr>"
  by (simp add: new_rule_def)

lemma new_rule_regex:
  "prefix_count \<noteq> 1 \<Longrightarrow>
   new_rule suffix prefix_count opts
   = \<lparr>rtype = ''DOMAIN-REGEX'',
      value = ''^'' @ join (backslash # ''.'') (replicate prefix_count ''[^.]+'')
              @ (backslash # ''.'') @ re_escape (join ''.'' suffix) @ ''$'',
      options = opts\<rparr>"
  by (simp add: new_rule_def Let_def)

lemma emissions_emission:
  assumes "e \<in> set (emissions rules)"
  shows "\<exists>item \<in> set (candidates (remaining_rules rules)).
           em_key e = fst item \<and>
           emission (remaining_rules rules) (em_before e) item = Some (em_rule e, em_consumed e)"
  using assms unfolding emissions_def Let_def by (rule engine_trace_emission)

lemma remaining_mixed_example:
  "remaining_rules
     [\<lparr>rtype = ''DOMAIN'', value = ''x.ads.example.com'', options = []\<rparr>,
      \<lparr>rtype = ''DOMAIN'', value = ''y.ads.example.com'', options = []\<rparr>,
      \<lparr>rtype = ''DOMAIN'', value = ''p.q.tracker.net'', options = []\<rparr>,
      \<lparr>rtype = ''DOMAIN'', value = ''r.s.tracker.net'', options = []\<rparr>]
   = [\<lparr>rtype = ''DOMAIN'', value = ''x.ads.example.com'', options = []\<rparr>,
      \<lparr>rtype = ''DOMAIN'', value = ''y.ads.example.com'', options = []\<rparr>,
      \<lparr>rtype = ''DOMAIN'', value = ''p.q.tracker.net'', options = []\<rparr>,
      \<lparr>rtype = ''DOMAIN'', value = ''r.s.tracker.net'', options = []\<rparr>]"
  by code_simp

lemma emissions_mixed_example:
  "map (\<lambda>e. (em_key e, removed (em_before e), em_consumed e))
     (emissions
       [\<lparr>rtype = ''DOMAIN'', value = ''x.ads.example.com'', options = []\<rparr>,
        \<lparr>rtype = ''DOMAIN'', value = ''y.ads.example.com'', options = []\<rparr>,
        \<lparr>rtype = ''DOMAIN'', value = ''p.q.tracker.net'', options = []\<rparr>,
        \<lparr>rtype = ''DOMAIN'', value = ''r.s.tracker.net'', options = []\<rparr>])
   = [(([''ads'', ''example'', ''com''], 1), {}, {0, 1}),
      (([''tracker'', ''net''], 2), {0, 1}, {2, 3})]"
  by code_simp

lemma remaining_dotted_example:
  "remaining_rules
     [\<lparr>rtype = ''DOMAIN'', value = ''.a.example.com'', options = []\<rparr>,
      \<lparr>rtype = ''DOMAIN'', value = ''.b.example.com'', options = []\<rparr>]
   = [\<lparr>rtype = ''DOMAIN'', value = ''.a.example.com'', options = []\<rparr>,
      \<lparr>rtype = ''DOMAIN'', value = ''.b.example.com'', options = []\<rparr>]"
  by code_simp

lemma emissions_dotted_example:
  "map (\<lambda>e. (em_key e, em_rule e, em_consumed e))
     (emissions
       [\<lparr>rtype = ''DOMAIN'', value = ''.a.example.com'', options = []\<rparr>,
        \<lparr>rtype = ''DOMAIN'', value = ''.b.example.com'', options = []\<rparr>])
   = [(([''example'', ''com''], 2),
       \<lparr>rtype = ''DOMAIN-REGEX'',
         value = ''^[^.]+'' @ [backslash] @ ''.[^.]+'' @ [backslash] @ ''.example''
                 @ [backslash] @ ''.com$'',
         options = []\<rparr>,
       {0, 1})]"
  apply code_simp
  apply (simp add: insert_commute)
  done

lemma simplify_dotted_example:
  "simplify_rules
       [\<lparr>rtype = ''DOMAIN'', value = ''.a.example.com'', options = []\<rparr>,
        \<lparr>rtype = ''DOMAIN'', value = ''.b.example.com'', options = []\<rparr>]
   = [\<lparr>rtype = ''DOMAIN-REGEX'',
         value = ''^[^.]+'' @ [backslash] @ ''.[^.]+'' @ [backslash] @ ''.example''
                 @ [backslash] @ ''.com$'',
         options = []\<rparr>]"
  apply code_simp
  apply simp
  done

lemma emissions_track_example:
  "map (\<lambda>e. (em_rule e, em_consumed e))
     (emissions
       [\<lparr>rtype = ''DOMAIN'', value = ''a1.track.example.com'', options = []\<rparr>,
        \<lparr>rtype = ''DOMAIN'', value = ''b2.track.example.com'', options = []\<rparr>])
   = [(\<lparr>rtype = ''DOMAIN-WILDCARD'', value = ''*.track.example.com'', options = []\<rparr>,
       {0, 1})]"
  apply code_simp
  apply (simp add: insert_commute)
  done

section \<open>Facts about the adapters\<close>










section \<open>Facts about serialized rules\<close>





lemma hd_join_Cons: "x \<noteq> [] \<Longrightarrow> hd (join sep (x # xs)) = hd x"
  by (cases xs) simp_all















section \<open>Facts about the run\<close>

lemma fetch_text_world:
  "snd (fetch_text net u w) = w\<lparr>requests := requests w @ [u]\<rparr>"
  by (simp add: fetch_text_def Let_def split: fetch_outcome.splits)

lemma fetch_text_fetched:
  "fetched (net u) \<Longrightarrow> \<exists>body. fst (fetch_text net u w) = Inr body"
  by (simp add: fetch_text_def fetched_def Let_def split: fetch_outcome.splits)

lemma fetch_text_failed:
  "\<not> fetched (net u) \<Longrightarrow> \<exists>f. fst (fetch_text net u w) = Inl f"
  by (simp add: fetch_text_def fetched_def Let_def split: fetch_outcome.splits)

lemma fetch_text_outcome_indep:
  "fst (fetch_text net u w) = fst (fetch_text net u w')"
  by (simp add: fetch_text_def Let_def split: fetch_outcome.splits)

lemma collect_failure:
  assumes "find (\<lambda>s. \<not> fetched (net (src_url s))) sources = Some s"
  shows "fst (collect net sources acc w) = map_sum id (\<lambda>x. acc) (fst (fetch_text net (src_url s) w)) \<and>
         requests (snd (collect net sources acc w))
           = requests w @ map src_url (takeWhile (\<lambda>s. fetched (net (src_url s))) sources)
             @ [src_url s] \<and>
         target_file (snd (collect net sources acc w)) = target_file w \<and>
         target_dir (snd (collect net sources acc w)) = target_dir w"
  using assms
proof (induction sources arbitrary: acc w)
  case Nil
  then show ?case by simp
next
  case (Cons a sources)
  obtain res w' where f: "fetch_text net (src_url a) w = (res, w')"
    by (cases "fetch_text net (src_url a) w")
  have w': "w' = w\<lparr>requests := requests w @ [src_url a]\<rparr>"
    using fetch_text_world [of net "src_url a" w] f by simp
  show ?case
  proof (cases "fetched (net (src_url a))")
    case True
    with Cons.prems have fs: "find (\<lambda>s. \<not> fetched (net (src_url s))) sources = Some s"
      by simp
    from True fetch_text_fetched [of net "src_url a" w] f obtain body where t: "res = Inr body"
      by auto
    show ?thesis
    proof (cases "src_kind a = ''quanx''")
      case q: True
      let ?w = "w'\<lparr>stderr := stderr w' @ parse_quanx_warnings body\<rparr>"
      have c: "collect net (a # sources) acc w
               = collect net sources (foldl add_unseen acc (parse_quanx body)) ?w"
        using f t q by simp
      have e: "fst (fetch_text net (src_url s) ?w) = fst (fetch_text net (src_url s) w)"
        by (rule fetch_text_outcome_indep)
      from fs obtain f' where "fst (fetch_text net (src_url s) w) = Inl f'"
        using fetch_text_failed [of net "src_url s" w] by (auto simp: find_Some_iff)
      then show ?thesis
        unfolding c using Cons.IH [OF fs, of "foldl add_unseen acc (parse_quanx body)" ?w] True e
        by (simp add: w')
    next
      case q: False
      have c: "collect net (a # sources) acc w
               = collect net sources (foldl add_unseen acc (parse_surge body)) w'"
        using f t q by simp
      have e: "fst (fetch_text net (src_url s) w') = fst (fetch_text net (src_url s) w)"
        by (rule fetch_text_outcome_indep)
      from fs obtain f' where "fst (fetch_text net (src_url s) w) = Inl f'"
        using fetch_text_failed [of net "src_url s" w] by (auto simp: find_Some_iff)
      then show ?thesis
        unfolding c using Cons.IH [OF fs, of "foldl add_unseen acc (parse_surge body)" w'] True e
        by (simp add: w')
    qed
  next
    case False
    with Cons.prems have s: "s = a" by simp
    from False fetch_text_failed [of net "src_url a" w] f obtain f' where t: "res = Inl f'"
      by auto
    with f s False show ?thesis by (simp add: w')
  qed
qed

lemma mentions_infix: "mentions (pre @ u @ post) u"
  unfolding mentions_def list_ex_iff
  by (rule bexI [of _ "length pre"]) simp_all

lemma sources_distinct: "distinct (map src_url SOURCES)"
  by code_simp

lemma count_list_distinct_prefix:
  assumes "distinct (map f xs)" "find P xs = Some x"
  shows "count_list (map f (takeWhile (\<lambda>y. \<not> P y) xs) @ [f x]) (f x) = 1"
  using assms
proof (induction xs)
  case Nil
  then show ?case by simp
next
  case (Cons a xs)
  show ?case
  proof (cases "P a")
    case True
    with Cons.prems show ?thesis by simp
  next
    case False
    with Cons.prems have f: "find P xs = Some x" by simp
    then have "x \<in> set xs" by (auto simp: find_Some_iff)
    with Cons.prems(1) have "f a \<noteq> f x" by auto
    with Cons.IH f Cons.prems(1) False show ?thesis by simp
  qed
qed

section \<open>Claims\<close>

text \<open>
  C10. \<open>normalize_regex\<close> always anchors and is idempotent: for every string \<open>v\<close> the
  result starts with \<open>^\<close> and ends with \<open>$\<close>, and normalising the result again changes
  nothing.
\<close>

theorem normalize_regex_anchors_idempotent:
  "startswith (normalize_regex v) ''^'' \<and> endswith (normalize_regex v) ''$'' \<and>
   normalize_regex (normalize_regex v) = normalize_regex v"
  using normalize_regex_anchored [of v] normalize_regex_fixed [of "normalize_regex v"]
  by simp

text \<open>
  C2. For the input consisting of the two rules \<open>DOMAIN,x.ads.example.com\<close> and
  \<open>DOMAIN,y.ads.example.com\<close>, both without options, the output of \<open>simplify_rules\<close>
  contains \<open>DOMAIN-WILDCARD,*.ads.example.com\<close> without options and contains neither
  of the two input rules.
\<close>

theorem simplify_ads_wildcard:
  "\<lparr>rtype = ''DOMAIN-WILDCARD'', value = ''*.ads.example.com'', options = []\<rparr>
     \<in> set (simplify_rules
         [\<lparr>rtype = ''DOMAIN'', value = ''x.ads.example.com'', options = []\<rparr>,
          \<lparr>rtype = ''DOMAIN'', value = ''y.ads.example.com'', options = []\<rparr>]) \<and>
   \<lparr>rtype = ''DOMAIN'', value = ''x.ads.example.com'', options = []\<rparr>
     \<notin> set (simplify_rules
         [\<lparr>rtype = ''DOMAIN'', value = ''x.ads.example.com'', options = []\<rparr>,
          \<lparr>rtype = ''DOMAIN'', value = ''y.ads.example.com'', options = []\<rparr>]) \<and>
   \<lparr>rtype = ''DOMAIN'', value = ''y.ads.example.com'', options = []\<rparr>
     \<notin> set (simplify_rules
         [\<lparr>rtype = ''DOMAIN'', value = ''x.ads.example.com'', options = []\<rparr>,
          \<lparr>rtype = ''DOMAIN'', value = ''y.ads.example.com'', options = []\<rparr>])"
  unfolding simplify_ads_example by simp

text \<open>
  C6. For the input consisting of the two rules \<open>DOMAIN,p.q.tracker.net\<close> and
  \<open>DOMAIN,r.s.tracker.net\<close>, both without options, the output of \<open>simplify_rules\<close>
  contains the \<open>DOMAIN-REGEX\<close> rule whose pattern is \<open>^\<close>, two groups \<open>[^.]+\<close> each
  followed by an escaped dot, the escaped suffix \<open>tracker\.net\<close> and \<open>$\<close>; the two input
  rules are not in the output.
\<close>

theorem simplify_tracker_regex:
  "\<lparr>rtype = ''DOMAIN-REGEX'',
    value = ''^[^.]+'' @ [backslash] @ ''.[^.]+'' @ [backslash] @ ''.tracker''
            @ [backslash] @ ''.net$'',
    options = []\<rparr>
     \<in> set (simplify_rules
         [\<lparr>rtype = ''DOMAIN'', value = ''p.q.tracker.net'', options = []\<rparr>,
          \<lparr>rtype = ''DOMAIN'', value = ''r.s.tracker.net'', options = []\<rparr>]) \<and>
   \<lparr>rtype = ''DOMAIN'', value = ''p.q.tracker.net'', options = []\<rparr>
     \<notin> set (simplify_rules
         [\<lparr>rtype = ''DOMAIN'', value = ''p.q.tracker.net'', options = []\<rparr>,
          \<lparr>rtype = ''DOMAIN'', value = ''r.s.tracker.net'', options = []\<rparr>]) \<and>
   \<lparr>rtype = ''DOMAIN'', value = ''r.s.tracker.net'', options = []\<rparr>
     \<notin> set (simplify_rules
         [\<lparr>rtype = ''DOMAIN'', value = ''p.q.tracker.net'', options = []\<rparr>,
          \<lparr>rtype = ''DOMAIN'', value = ''r.s.tracker.net'', options = []\<rparr>])"
  unfolding simplify_tracker_example by simp

text \<open>
  C4, as stated: each of \<open>DOMAIN,a1.track.example.com\<close> and
  \<open>DOMAIN,b2.track.example.com\<close> is promoted by \<open>promote_dynamic_labels\<close> to
  \<open>DOMAIN-WILDCARD,*.track.example.com\<close>. This fails: the labels \<open>a1\<close> and \<open>b2\<close> carry a
  digit but have length 2, below the threshold of 4, so neither rule is promoted.
\<close>

theorem track_example_not_promoted:
  "\<not> (promote_dynamic_labels
         \<lparr>rtype = ''DOMAIN'', value = ''a1.track.example.com'', options = []\<rparr>
       = Some \<lparr>rtype = ''DOMAIN-WILDCARD'', value = ''*.track.example.com'', options = []\<rparr> \<and>
       promote_dynamic_labels
         \<lparr>rtype = ''DOMAIN'', value = ''b2.track.example.com'', options = []\<rparr>
       = Some \<lparr>rtype = ''DOMAIN-WILDCARD'', value = ''*.track.example.com'', options = []\<rparr>)"
  by (simp add: promote_track_example)

text \<open>
  C4, amended: neither of the two rules is promoted; the output of \<open>simplify_rules\<close> on
  the two rules is the single rule \<open>DOMAIN-WILDCARD,*.track.example.com\<close>, hence holds
  exactly one occurrence of it, and that rule is the one the suffix engine emits for
  the two rules.
\<close>

theorem track_example_generalized:
  "promote_dynamic_labels
     \<lparr>rtype = ''DOMAIN'', value = ''a1.track.example.com'', options = []\<rparr> = None \<and>
   promote_dynamic_labels
     \<lparr>rtype = ''DOMAIN'', value = ''b2.track.example.com'', options = []\<rparr> = None \<and>
   map (\<lambda>e. (em_rule e, em_consumed e))
     (emissions
       [\<lparr>rtype = ''DOMAIN'', value = ''a1.track.example.com'', options = []\<rparr>,
        \<lparr>rtype = ''DOMAIN'', value = ''b2.track.example.com'', options = []\<rparr>])
   = [(\<lparr>rtype = ''DOMAIN-WILDCARD'', value = ''*.track.example.com'', options = []\<rparr>,
       {0, 1})] \<and>
   simplify_rules
     [\<lparr>rtype = ''DOMAIN'', value = ''a1.track.example.com'', options = []\<rparr>,
      \<lparr>rtype = ''DOMAIN'', value = ''b2.track.example.com'', options = []\<rparr>]
   = [\<lparr>rtype = ''DOMAIN-WILDCARD'', value = ''*.track.example.com'', options = []\<rparr>] \<and>
   count_list
     (simplify_rules
        [\<lparr>rtype = ''DOMAIN'', value = ''a1.track.example.com'', options = []\<rparr>,
         \<lparr>rtype = ''DOMAIN'', value = ''b2.track.example.com'', options = []\<rparr>])
     \<lparr>rtype = ''DOMAIN-WILDCARD'', value = ''*.track.example.com'', options = []\<rparr> = 1"
  unfolding simplify_track_example emissions_track_example
  by (simp add: promote_track_example)

text \<open>
  C5. Contract of \<open>promote_dynamic_labels\<close>: a rule is returned exactly when the type
  is \<open>DOMAIN\<close>, the value has at least 3 labels and some label other than the last two
  has a digit and length at least 4; the result is then the \<open>DOMAIN-WILDCARD\<close> rule
  whose value is the input value with each such label replaced by \<open>*\<close> and every other
  label unchanged, with the options of the input. In every other case nothing is
  returned.
\<close>

theorem promote_dynamic_labels_contract:
  "promote_dynamic_labels r =
     (let labels = split_on CHR ''.'' (value r) in
      if rtype r = ''DOMAIN'' \<and> 3 \<le> length labels \<and>
         list_ex dynamic_label (take (length labels - 2) labels)
      then Some \<lparr>rtype = ''DOMAIN-WILDCARD'',
                 value = join ''.''
                   (map (\<lambda>(i, l). if i < length labels - 2 \<and> dynamic_label l then ''*'' else l)
                        (enumerate 0 labels)),
                 options = options r\<rparr>
      else None)"
proof -
  have eq: "(\<lambda>(idx, label). has_digit label \<and> 4 \<le> length label)
            = (\<lambda>(idx, label). dynamic_label label)"
    by (simp add: dynamic_label_def)
  show ?thesis
    unfolding promote_dynamic_labels_def Let_def eq flagged_positions_empty foldl_update_flagged
    by auto
qed

theorem promote_dynamic_labels_contract_witness:
  "promote_dynamic_labels \<lparr>rtype = ''DOMAIN'', value = ''ab12.x9.example.com'', options = [''no-resolve'']\<rparr>
   = Some \<lparr>rtype = ''DOMAIN-WILDCARD'', value = ''*.x9.example.com'', options = [''no-resolve'']\<rparr>"
  using promote_dynamic_labels_contract
    [of "\<lparr>rtype = ''DOMAIN'', value = ''ab12.x9.example.com'', options = [''no-resolve'']\<rparr>"]
  by (simp add: dynamic_label_def has_digit_def is_digit_def enumerate_eq_zip)

text \<open>
  C7. Minimum support: the generalized rules of a run are exactly the rules of its
  emissions, and every emission consumes at least 2 indexes, none of which was removed
  by an earlier emission.
\<close>

theorem minimum_support:
  "generalized (run_engine (remaining_rules rules)) = map em_rule (emissions rules) \<and>
   (\<forall>e \<in> set (emissions rules).
      2 \<le> card (em_consumed e) \<and> em_consumed e \<inter> removed (em_before e) = {})"
proof (intro conjI ballI)
  show "generalized (run_engine (remaining_rules rules)) = map em_rule (emissions rules)"
    by (simp add: run_engine_def emissions_def engine_trace_generalized initial_state_def
        Let_def)
next
  fix e assume "e \<in> set (emissions rules)"
  from emissions_emission [OF this] obtain item
    where "emission (remaining_rules rules) (em_before e) item = Some (em_rule e, em_consumed e)"
    by blast
  from emission_SomeD(1,2) [OF this]
  show "2 \<le> card (em_consumed e)" and "em_consumed e \<inter> removed (em_before e) = {}"
    by auto
qed

theorem minimum_support_witness:
  "map (\<lambda>e. (em_key e, removed (em_before e), em_consumed e))
     (emissions
       [\<lparr>rtype = ''DOMAIN'', value = ''x.ads.example.com'', options = []\<rparr>,
        \<lparr>rtype = ''DOMAIN'', value = ''y.ads.example.com'', options = []\<rparr>,
        \<lparr>rtype = ''DOMAIN'', value = ''p.q.tracker.net'', options = []\<rparr>,
        \<lparr>rtype = ''DOMAIN'', value = ''r.s.tracker.net'', options = []\<rparr>])
   = [(([''ads'', ''example'', ''com''], 1), {}, {0, 1}),
      (([''tracker'', ''net''], 2), {0, 1}, {2, 3})] \<and>
   list_all (\<lambda>e. 2 \<le> card (em_consumed e) \<and> em_consumed e \<inter> removed (em_before e) = {})
     (emissions
       [\<lparr>rtype = ''DOMAIN'', value = ''x.ads.example.com'', options = []\<rparr>,
        \<lparr>rtype = ''DOMAIN'', value = ''y.ads.example.com'', options = []\<rparr>,
        \<lparr>rtype = ''DOMAIN'', value = ''p.q.tracker.net'', options = []\<rparr>,
        \<lparr>rtype = ''DOMAIN'', value = ''r.s.tracker.net'', options = []\<rparr>])"
  using minimum_support
    [of "[\<lparr>rtype = ''DOMAIN'', value = ''x.ads.example.com'', options = []\<rparr>,
        \<lparr>rtype = ''DOMAIN'', value = ''y.ads.example.com'', options = []\<rparr>,
        \<lparr>rtype = ''DOMAIN'', value = ''p.q.tracker.net'', options = []\<rparr>,
        \<lparr>rtype = ''DOMAIN'', value = ''r.s.tracker.net'', options = []\<rparr>]"]
    emissions_mixed_example
  unfolding list_all_iff by blast

text \<open>
  C1, as stated, asks that every value consumed for a \<open>DOMAIN-REGEX\<close> emitted at a
  prefix count above 1 consist of that many non-empty labels without a dot, followed by
  the dotted suffix. This fails on the two rules \<open>DOMAIN,.a.example.com\<close> and
  \<open>DOMAIN,.b.example.com\<close>: they are consumed for the key \<open>((example, com), 2)\<close>, and
  the first of the two leading labels of \<open>.a.example.com\<close> is empty.
\<close>

theorem generalization_unsound_with_empty_label:
  "map (\<lambda>e. (em_key e, em_rule e, em_consumed e))
     (emissions
       [\<lparr>rtype = ''DOMAIN'', value = ''.a.example.com'', options = []\<rparr>,
        \<lparr>rtype = ''DOMAIN'', value = ''.b.example.com'', options = []\<rparr>])
   = [(([''example'', ''com''], 2),
       \<lparr>rtype = ''DOMAIN-REGEX'',
         value = ''^[^.]+'' @ [backslash] @ ''.[^.]+'' @ [backslash] @ ''.example''
                 @ [backslash] @ ''.com$'',
         options = []\<rparr>,
       {0, 1})] \<and>
   value (remaining_rules
       [\<lparr>rtype = ''DOMAIN'', value = ''.a.example.com'', options = []\<rparr>,
        \<lparr>rtype = ''DOMAIN'', value = ''.b.example.com'', options = []\<rparr>] ! 0)
   = ''.a.example.com'' \<and>
   \<not> matches_label_regex 2 (join ''.'' [''example'', ''com'']) ''.a.example.com''"
proof -
  have "\<not> matches_label_regex 2 (join ''.'' [''example'', ''com'']) ''.a.example.com''"
    using matches_label_regex_hd [of 2 "join ''.'' [''example'', ''com'']" "''.a.example.com''"]
    by auto
  then show ?thesis
    by (simp add: emissions_dotted_example remaining_dotted_example)
qed

text \<open>
  C1, amended: every index consumed by an emission is the index of a \<open>DOMAIN\<close> rule
  with the options of the emitted rule, whose value is \<open>prefix_count\<close> labels without a
  dot, a dot, and the suffix string. At prefix count 1 the emitted rule is the
  \<open>DOMAIN-WILDCARD\<close> \<open>*.suffix\<close> and the value matches it. At any other prefix count
  the emitted rule is the \<open>DOMAIN-REGEX\<close> of that many \<open>[^.]+\<close> groups and the escaped
  suffix, and the value matches it whenever none of its leading labels is empty.
\<close>

theorem generalization_soundness:
  "\<forall>e \<in> set (emissions rules). \<forall>idx \<in> em_consumed e.
     (let remaining = remaining_rules rules;
          suffix_str = join ''.'' (fst (em_key e));
          prefix_count = snd (em_key e);
          v = value (remaining ! idx);
          labels = take prefix_count (split_on CHR ''.'' v)
      in idx < length remaining \<and> rtype (remaining ! idx) = ''DOMAIN'' \<and>
         options (em_rule e) = options (remaining ! idx) \<and>
         length labels = prefix_count \<and> (\<forall>l \<in> set labels. CHR ''.'' \<notin> set l) \<and>
         v = join ''.'' labels @ ''.'' @ suffix_str \<and>
         (prefix_count = 1 \<longrightarrow>
            rtype (em_rule e) = ''DOMAIN-WILDCARD'' \<and>
            value (em_rule e) = ''*.'' @ suffix_str \<and>
            matches_wildcard suffix_str v) \<and>
         (prefix_count \<noteq> 1 \<longrightarrow>
            rtype (em_rule e) = ''DOMAIN-REGEX'' \<and>
            value (em_rule e)
              = ''^'' @ join (backslash # ''.'') (replicate prefix_count ''[^.]+'')
                @ (backslash # ''.'') @ re_escape suffix_str @ ''$'' \<and>
            ([] \<notin> set labels \<longrightarrow> matches_label_regex prefix_count suffix_str v)))"
proof (intro ballI)
  fix e idx
  assume e: "e \<in> set (emissions rules)" and idx: "idx \<in> em_consumed e"
  define remaining where "remaining = remaining_rules rules"
  define suffix where "suffix = fst (em_key e)"
  define prefix_count where "prefix_count = snd (em_key e)"
  define v where "v = value (remaining ! idx)"
  define labels where "labels = take prefix_count (split_on CHR ''.'' v)"
  from emissions_emission [OF e] obtain item
    where item: "item \<in> set (candidates remaining)" "em_key e = fst item"
      and em: "emission remaining (em_before e) item = Some (em_rule e, em_consumed e)"
    unfolding remaining_def by blast
  from emission_SomeD(1) [OF em] idx have "idx \<in> snd item" by simp
  from candidates_supported [OF item(1) this] item(2)
  have sup: "supports remaining (suffix, prefix_count) idx"
    by (simp add: suffix_def prefix_count_def)
  from emission_SomeD(3) [OF em] idx item(2) obtain opts
    where opts: "options (remaining ! idx) = opts"
      and r: "em_rule e = new_rule suffix prefix_count opts"
    by (auto simp: suffix_def prefix_count_def)
  note sv = supports_value [OF sup, folded v_def, folded labels_def]
  have a: "idx < length remaining \<and> rtype (remaining ! idx) = ''DOMAIN''"
    using sup by (simp add: supports_def)
  have b: "options (em_rule e) = options (remaining ! idx)"
    using r opts by (simp add: new_rule_def Let_def)
  have w: "matches_wildcard (join ''.'' suffix) v" if "prefix_count = 1"
  proof -
    from sv(1) that obtain l where l: "labels = [l]"
      by (cases labels) auto
    with sv(2,3) show ?thesis
      by (auto simp: matches_wildcard_def)
  qed
  have x: "matches_label_regex prefix_count (join ''.'' suffix) v" if "[] \<notin> set labels"
    unfolding matches_label_regex_def using sv that
    by (intro exI [of _ labels]) auto
  have c: "prefix_count = 1 \<longrightarrow>
            rtype (em_rule e) = ''DOMAIN-WILDCARD'' \<and>
            value (em_rule e) = ''*.'' @ join ''.'' suffix \<and>
            matches_wildcard (join ''.'' suffix) v"
    using r w by (simp add: new_rule_wildcard)
  have d: "prefix_count \<noteq> 1 \<longrightarrow>
            rtype (em_rule e) = ''DOMAIN-REGEX'' \<and>
            value (em_rule e)
              = ''^'' @ join (backslash # ''.'') (replicate prefix_count ''[^.]+'')
                @ (backslash # ''.'') @ re_escape (join ''.'' suffix) @ ''$'' \<and>
            ([] \<notin> set labels \<longrightarrow> matches_label_regex prefix_count (join ''.'' suffix) v)"
    using r x by (simp add: new_rule_regex)
  from a b sv c d
  show "let remaining = remaining_rules rules;
          suffix_str = join ''.'' (fst (em_key e));
          prefix_count = snd (em_key e);
          v = value (remaining ! idx);
          labels = take prefix_count (split_on CHR ''.'' v)
      in idx < length remaining \<and> rtype (remaining ! idx) = ''DOMAIN'' \<and>
         options (em_rule e) = options (remaining ! idx) \<and>
         length labels = prefix_count \<and> (\<forall>l \<in> set labels. CHR ''.'' \<notin> set l) \<and>
         v = join ''.'' labels @ ''.'' @ suffix_str \<and>
         (prefix_count = 1 \<longrightarrow>
            rtype (em_rule e) = ''DOMAIN-WILDCARD'' \<and>
            value (em_rule e) = ''*.'' @ suffix_str \<and>
            matches_wildcard suffix_str v) \<and>
         (prefix_count \<noteq> 1 \<longrightarrow>
            rtype (em_rule e) = ''DOMAIN-REGEX'' \<and>
            value (em_rule e)
              = ''^'' @ join (backslash # ''.'') (replicate prefix_count ''[^.]+'')
                @ (backslash # ''.'') @ re_escape suffix_str @ ''$'' \<and>
            ([] \<notin> set labels \<longrightarrow> matches_label_regex prefix_count suffix_str v))"
    unfolding Let_def remaining_def [symmetric] suffix_def [symmetric]
      prefix_count_def [symmetric] v_def [symmetric] labels_def [symmetric]
    by blast
qed

theorem generalization_soundness_witness:
  "(\<exists>e \<in> set (emissions
       [\<lparr>rtype = ''DOMAIN'', value = ''x.ads.example.com'', options = []\<rparr>,
        \<lparr>rtype = ''DOMAIN'', value = ''y.ads.example.com'', options = []\<rparr>,
        \<lparr>rtype = ''DOMAIN'', value = ''p.q.tracker.net'', options = []\<rparr>,
        \<lparr>rtype = ''DOMAIN'', value = ''r.s.tracker.net'', options = []\<rparr>]).
      em_key e = ([''ads'', ''example'', ''com''], 1) \<and> 0 \<in> em_consumed e) \<and>
   matches_wildcard ''ads.example.com'' ''x.ads.example.com'' \<and>
   (\<exists>e \<in> set (emissions
       [\<lparr>rtype = ''DOMAIN'', value = ''x.ads.example.com'', options = []\<rparr>,
        \<lparr>rtype = ''DOMAIN'', value = ''y.ads.example.com'', options = []\<rparr>,
        \<lparr>rtype = ''DOMAIN'', value = ''p.q.tracker.net'', options = []\<rparr>,
        \<lparr>rtype = ''DOMAIN'', value = ''r.s.tracker.net'', options = []\<rparr>]).
      em_key e = ([''tracker'', ''net''], 2) \<and> 2 \<in> em_consumed e) \<and>
   matches_label_regex 2 ''tracker.net'' ''p.q.tracker.net''"
proof -
  let ?I = "[\<lparr>rtype = ''DOMAIN'', value = ''x.ads.example.com'', options = []\<rparr>,
        \<lparr>rtype = ''DOMAIN'', value = ''y.ads.example.com'', options = []\<rparr>,
        \<lparr>rtype = ''DOMAIN'', value = ''p.q.tracker.net'', options = []\<rparr>,
        \<lparr>rtype = ''DOMAIN'', value = ''r.s.tracker.net'', options = []\<rparr>]"
  from emissions_mixed_example obtain e1 e2
    where es: "emissions ?I = [e1, e2]"
      and e1: "em_key e1 = ([''ads'', ''example'', ''com''], 1)" "em_consumed e1 = {0, 1}"
      and e2: "em_key e2 = ([''tracker'', ''net''], 2)" "em_consumed e2 = {2, 3}"
    by (auto simp: map_eq_Cons_conv)
  have m1: "e1 \<in> set (emissions ?I)" and m2: "e2 \<in> set (emissions ?I)"
    using es by simp_all
  have i1: "0 \<in> em_consumed e1" and i2: "2 \<in> em_consumed e2"
    using e1 e2 by simp_all
  from generalization_soundness [of ?I, rule_format, OF m1 i1]
  have "matches_wildcard ''ads.example.com'' ''x.ads.example.com''"
    unfolding Let_def remaining_mixed_example e1 by simp
  moreover
  from generalization_soundness [of ?I, rule_format, OF m2 i2]
  have "matches_label_regex 2 ''tracker.net'' ''p.q.tracker.net''"
    unfolding Let_def remaining_mixed_example e2 by simp
  ultimately show ?thesis
    using m1 m2 i1 i2 e1 e2 by blast
qed







text \<open>
  C9, as stated, has every failed fetch end the run with a message that names the
  failing URL. \<open>fetch_text\<close> turns only an exception of class \<open>URLError\<close> into that
  \<open>SystemExit\<close>; an exception of another class, such as a timeout while the body is
  read, leaves \<open>main\<close> uncaught and carries its own text.
\<close>

theorem fetch_failure_without_url:
  "fst (main (\<lambda>u. OtherError ''The read operation timed out'') ''2024-01-01T00:00:00''
          \<lparr>requests = [], stderr = [], target_dir = False, target_file = None\<rparr>)
   = Inl (Uncaught ''The read operation timed out'') \<and>
   \<not> mentions ''The read operation timed out'' (src_url (SOURCES ! 0))"
  by code_simp

text \<open>
  C9, amended. When the fetch of some source fails, the run ends at the first such
  source with a non-zero exit status; the target file and its directory are as they
  were; the requests sent are those for the sources before it and one for the failing
  URL, which is requested exactly once. If the failure is a \<open>URLError\<close>, the run ends by
  \<open>SystemExit\<close> with the message \<open>Failed to download <url>: <exc>\<close>, which names the
  failing URL; if it is an exception of another class, that exception ends the run.
\<close>

theorem fetch_failure_aborts:
  assumes "find (\<lambda>s. \<not> fetched (net (src_url s))) SOURCES = Some s"
  shows "exit_status (fst (main net now w)) \<noteq> 0 \<and>
         target_file (snd (main net now w)) = target_file w \<and>
         target_dir (snd (main net now w)) = target_dir w \<and>
         requests (snd (main net now w))
           = requests w @ map src_url (takeWhile (\<lambda>s. fetched (net (src_url s))) SOURCES)
             @ [src_url s] \<and>
         count_list (map src_url (takeWhile (\<lambda>s. fetched (net (src_url s))) SOURCES)
                     @ [src_url s]) (src_url s) = 1 \<and>
         (\<forall>exc. net (src_url s) = URLError exc \<longrightarrow>
            fst (main net now w)
              = Inl (SystemExit (''Failed to download '' @ src_url s @ '': '' @ exc)) \<and>
            mentions (''Failed to download '' @ src_url s @ '': '' @ exc) (src_url s)) \<and>
         (\<forall>exc. net (src_url s) = OtherError exc \<longrightarrow>
            fst (main net now w) = Inl (Uncaught exc))"
proof -
  let ?c = "collect net SOURCES ([], {}) w"
  note c = collect_failure [OF assms, of "([], {})" w]
  from assms have nf: "\<not> fetched (net (src_url s))" by (auto simp: find_Some_iff)
  then obtain f where f: "fst (fetch_text net (src_url s) w) = Inl f"
    using fetch_text_failed by blast
  with c have cf: "fst ?c = Inl f" by simp
  then have m: "main net now w = (Inl f, snd ?c)"
    by (cases ?c) (simp add: main_def)
  have 1: "exit_status (fst (main net now w)) \<noteq> 0"
    by (simp add: m exit_status_def)
  have 2: "target_file (snd (main net now w)) = target_file w"
    and 3: "target_dir (snd (main net now w)) = target_dir w"
    and 4: "requests (snd (main net now w))
           = requests w @ map src_url (takeWhile (\<lambda>s. fetched (net (src_url s))) SOURCES)
             @ [src_url s]"
    using c by (simp_all add: m)
  have 5: "count_list (map src_url (takeWhile (\<lambda>s. fetched (net (src_url s))) SOURCES)
                     @ [src_url s]) (src_url s) = 1"
    using count_list_distinct_prefix [OF sources_distinct assms] by simp
  have 6: "fst (main net now w)
              = Inl (SystemExit (''Failed to download '' @ src_url s @ '': '' @ exc)) \<and>
            mentions (''Failed to download '' @ src_url s @ '': '' @ exc) (src_url s)"
    if "net (src_url s) = URLError exc" for exc
  proof -
    from that f have "f = SystemExit (''Failed to download '' @ src_url s @ '': '' @ exc)"
      by (simp add: fetch_text_def Let_def)
    moreover have "mentions (''Failed to download '' @ src_url s @ '': '' @ exc) (src_url s)"
      by (rule mentions_infix)
    ultimately show ?thesis by (simp only: m fst_conv simp_thms)
  qed
  have 7: "fst (main net now w) = Inl (Uncaught exc)"
    if "net (src_url s) = OtherError exc" for exc
    using that f by (simp add: m fetch_text_def Let_def)
  from 1 2 3 4 5 6 7 show ?thesis by blast
qed

theorem fetch_failure_aborts_witness:
  "fst (main (\<lambda>u. if u = src_url (SOURCES ! 0) then Fetched ''HOST,x.com,reject''
                  else URLError ''<urlopen error timed out>'')
          ''2024-01-01T00:00:00''
          \<lparr>requests = [], stderr = [], target_dir = False, target_file = None\<rparr>)
   = Inl (SystemExit (''Failed to download '' @ src_url (SOURCES ! 1)
                       @ '': <urlopen error timed out>'')) \<and>
   target_file
     (snd (main (\<lambda>u. if u = src_url (SOURCES ! 0) then Fetched ''HOST,x.com,reject''
                  else URLError ''<urlopen error timed out>'')
          ''2024-01-01T00:00:00''
          \<lparr>requests = [], stderr = [], target_dir = False, target_file = None\<rparr>))
   = None \<and>
   requests
     (snd (main (\<lambda>u. if u = src_url (SOURCES ! 0) then Fetched ''HOST,x.com,reject''
                  else URLError ''<urlopen error timed out>'')
          ''2024-01-01T00:00:00''
          \<lparr>requests = [], stderr = [], target_dir = False, target_file = None\<rparr>))
   = [src_url (SOURCES ! 0), src_url (SOURCES ! 1)]"
proof -
  let ?net = "\<lambda>u. if u = src_url (SOURCES ! 0) then Fetched ''HOST,x.com,reject''
                  else URLError ''<urlopen error timed out>''"
  let ?w = "\<lparr>requests = [], stderr = [], target_dir = False, target_file = None\<rparr>"
  have f: "find (\<lambda>s. \<not> fetched (?net (src_url s))) SOURCES = Some (SOURCES ! 1)"
    by code_simp
  have n: "?net (src_url (SOURCES ! 1)) = URLError ''<urlopen error timed out>''"
    by code_simp
  have t: "map src_url (takeWhile (\<lambda>s. fetched (?net (src_url s))) SOURCES)
           = [src_url (SOURCES ! 0)]"
    by code_simp
  from fetch_failure_aborts [OF f, of "''2024-01-01T00:00:00''" ?w] n
  show ?thesis unfolding t by simp
qed

end
